theory Spec2Isabelle
  imports Main "HOL-Library.AList"
begin

section \<open>Python values\<close>

text \<open>
  The objects that \<^verbatim>\<open>JsonBuilder.add\<close> of \<^verbatim>\<open>src/json_builder.py\<close> can meet, as trees.
  \<open>PNone\<close>, \<open>PBool\<close>, \<open>PInt\<close> and \<open>PStr\<close> are the scalars (a float, or any other
  serializable object that is neither a \<^verbatim>\<open>dict\<close> nor a \<^verbatim>\<open>list\<close>, behaves as they do:
  the code only ever asks a node whether it is a \<^verbatim>\<open>dict\<close> or a \<^verbatim>\<open>list\<close>).
  \<open>PList\<close> is a \<^verbatim>\<open>list\<close>. \<open>PDict\<close> is a \<^verbatim>\<open>dict\<close> with string keys, kept as an
  association list in insertion order. \<open>PNotSet\<close> is an instance of the class
  \<^verbatim>\<open>NotSet\<close> (lines 6-8; all instances are alike), and \<open>PObject n\<close> is any other object
  that \<^verbatim>\<open>json.dumps\<close> rejects.

  The in-place mutation of the source is modelled on trees: no object is shared between
  two places of a tree, and every function returns the new state of the object it mutates.
\<close>

datatype pyval =
    PNone
  | PBool bool
  | PInt int
  | PStr string
  | PList "pyval list"
  | PDict "(string \<times> pyval) list"
  | PNotSet
  | PObject nat

text \<open>
  \<^verbatim>\<open>json.dumps(root)\<close> raises \<^verbatim>\<open>TypeError\<close> exactly when it reaches an object it has
  no encoding for; \<open>json_serializable\<close> is the negation of that.
\<close>

fun json_serializable :: "pyval \<Rightarrow> bool" where
  "json_serializable (PList xs) = list_all json_serializable xs"
| "json_serializable (PDict kvs) = list_all (\<lambda>kv. json_serializable (snd kv)) kvs"
| "json_serializable PNotSet = False"
| "json_serializable (PObject _) = False"
| "json_serializable _ = True"

text \<open>Whether an instance of \<^verbatim>\<open>NotSet\<close> occurs anywhere in a tree.\<close>

fun contains_NotSet :: "pyval \<Rightarrow> bool" where
  "contains_NotSet PNotSet = True"
| "contains_NotSet (PList xs) = list_ex contains_NotSet xs"
| "contains_NotSet (PDict kvs) = list_ex (\<lambda>kv. contains_NotSet (snd kv)) kvs"
| "contains_NotSet _ = False"

text \<open>
  The exceptions of the source, under the names of the specification:
  \<open>NotSerializableError\<close> is the \<^verbatim>\<open>TypeError\<close> of \<^verbatim>\<open>__check_json\<close> (line 114),
  \<open>InvalidPathError\<close> the \<^verbatim>\<open>ValueError\<close> of \<^verbatim>\<open>__check_path\<close> (line 130),
  \<open>TypeMismatchError\<close> the \<^verbatim>\<open>TypeError\<close> of the two \<^verbatim>\<open>add\<close> methods (lines 40 and 78,
  raised again at line 173), \<open>IndexGapError\<close> the \<^verbatim>\<open>IndexError\<close> of line 81, and
  \<open>LookupError\<close> what a subscript \<^verbatim>\<open>root[self.key]\<close> raises on a missing key or
  position (lines 58 and 97).
\<close>

datatype error =
    NotSerializableError
  | InvalidPathError
  | TypeMismatchError
  | IndexGapError
  | LookupError

section \<open>Path components\<close>

text \<open>
  \<^verbatim>\<open>ComponentKey(key)\<close> keeps the string; \<^verbatim>\<open>ComponentIndex(key)\<close> keeps \<^verbatim>\<open>int(key)\<close>,
  which is never negative because its argument is a run of digits.
\<close>

datatype component = ComponentKey string | ComponentIndex nat

fun is_ComponentKey :: "component option \<Rightarrow> bool" where
  "is_ComponentKey (Some (ComponentKey _)) = True"
| "is_ComponentKey _ = False"

fun is_ComponentIndex :: "component option \<Rightarrow> bool" where
  "is_ComponentIndex (Some (ComponentIndex _)) = True"
| "is_ComponentIndex _ = False"

text \<open>
  An \<^verbatim>\<open>add\<close> method returns a reference: to the container it was given (\<open>Self\<close>), to
  the entry of that dictionary under a key, or to the item of that list at a position.
\<close>

datatype ref = Self | Entry string | Item nat

text \<open>
  \<^verbatim>\<open>ComponentKey.add\<close> (lines 30-59). The result is the error raised, or the new state
  of \<^verbatim>\<open>root\<close> with the reference returned.
\<close>

fun ComponentKey_add ::
  "string \<Rightarrow> pyval \<Rightarrow> component option \<Rightarrow> pyval \<Rightarrow> error + (pyval \<times> ref)" where
  "ComponentKey_add key (PDict d) component_next val =
     (if key = ''$'' then Inr (PDict d, Self)
      else if val \<noteq> PNotSet then Inr (PDict (AList.update key val d), Self)
      else if map_of d key = None then
        (if is_ComponentIndex component_next
         then Inr (PDict (AList.update key (PList []) d), Entry key)
         else Inr (PDict (AList.update key (PDict []) d), Entry key))
      else Inr (PDict d, Entry key))"
| "ComponentKey_add key _ component_next val = Inl TypeMismatchError"

text \<open>
  \<^verbatim>\<open>ComponentIndex.add\<close> (lines 68-98): \<open>xs1\<close> is the list after line 85, \<open>xs2\<close> the
  list after lines 87-95.
\<close>

fun ComponentIndex_add ::
  "nat \<Rightarrow> pyval \<Rightarrow> component option \<Rightarrow> pyval \<Rightarrow> error + (pyval \<times> ref)" where
  "ComponentIndex_add key (PList xs) component_next val =
     (if length xs < key then Inl IndexGapError
      else
        let xs1 = (if length xs = key then xs @ [PNotSet] else xs);
            xs2 = (if val \<noteq> PNotSet then xs1[key := val]
                   else if is_ComponentKey component_next then xs1 @ [PDict []]
                   else xs1 @ [PList []])
        in Inr (PList xs2, Item key))"
| "ComponentIndex_add key _ component_next val = Inl TypeMismatchError"

fun component_add ::
  "component \<Rightarrow> pyval \<Rightarrow> component option \<Rightarrow> pyval \<Rightarrow> error + (pyval \<times> ref)" where
  "component_add (ComponentKey key) = ComponentKey_add key"
| "component_add (ComponentIndex key) = ComponentIndex_add key"

text \<open>The object a returned reference points to, and the container once that object has changed.\<close>

fun deref :: "pyval \<Rightarrow> ref \<Rightarrow> pyval option" where
  "deref node Self = Some node"
| "deref (PDict d) (Entry k) = map_of d k"
| "deref (PList xs) (Item i) = (if i < length xs then Some (xs ! i) else None)"
| "deref _ _ = None"

fun reseat :: "pyval \<Rightarrow> ref \<Rightarrow> pyval \<Rightarrow> pyval" where
  "reseat node Self child = child"
| "reseat (PDict d) (Entry k) child = PDict (AList.update k child d)"
| "reseat (PList xs) (Item i) child = PList (xs[i := child])"
| "reseat node _ child = node"

text \<open>
  The loop of \<^verbatim>\<open>JsonBuilder.add\<close> (lines 166-177), started on \<^verbatim>\<open>child\<close> with the
  components that remain: \<^verbatim>\<open>component_current\<close> is the head of the list and
  \<^verbatim>\<open>component_next\<close> the one after it, if any. The result is the exception raised, if
  any, and the new state of the object \<^verbatim>\<open>child\<close> was bound to. Every component is
  an object, hence true as a condition.
\<close>

fun add_loop :: "component list \<Rightarrow> pyval \<Rightarrow> pyval \<Rightarrow> error option \<times> pyval" where
  "add_loop [] val child = (None, child)"
| "add_loop (component_current # rest) val child =
     (let component_next = (case rest of [] \<Rightarrow> None | c # _ \<Rightarrow> Some c);
          component_value = (if component_next \<noteq> None then PNotSet else val)
      in case component_add component_current child component_next component_value of
           Inl e \<Rightarrow> (Some e, child)
         | Inr (child', r) \<Rightarrow>
             (case deref child' r of
                None \<Rightarrow> (Some LookupError, child')
              | Some below \<Rightarrow>
                  (case add_loop rest val below of
                     (outcome, below') \<Rightarrow> (outcome, reseat child' r below'))))"

section \<open>Regular expressions\<close>

text \<open>
  The fragment of Python's \<^verbatim>\<open>re\<close> syntax that the source uses: a literal character, a
  character class \<^verbatim>\<open>[...]\<close> as the list of its inclusive ranges (a single character is
  the range from itself to itself), \<^verbatim>\<open>.\<close> (any character but the newline),
  juxtaposition, \<^verbatim>\<open>*\<close> and \<^verbatim>\<open>+\<close>. \<open>Never\<close>, \<open>Empty\<close> and \<open>Alt\<close> are not written
  in any pattern of the source: they arise in derivatives. The anchors \<^verbatim>\<open>^\<close> and \<^verbatim>\<open>$\<close>
  of the source's patterns are left out, since \<^verbatim>\<open>re.fullmatch\<close> only accepts a match of
  the whole string.
\<close>

datatype regex =
    Never
  | Empty
  | Lit char
  | Cls "(char \<times> char) list"
  | Dot
  | Seq regex regex
  | Alt regex regex
  | Star regex
  | Plus regex

definition in_ranges :: "(char \<times> char) list \<Rightarrow> char \<Rightarrow> bool" where
  "in_ranges rs c =
     list_ex (\<lambda>r. (of_char (fst r) :: nat) \<le> of_char c \<and> (of_char c :: nat) \<le> of_char (snd r)) rs"

fun nullable :: "regex \<Rightarrow> bool" where
  "nullable Never = False"
| "nullable Empty = True"
| "nullable (Lit _) = False"
| "nullable (Cls _) = False"
| "nullable Dot = False"
| "nullable (Seq r s) = (nullable r \<and> nullable s)"
| "nullable (Alt r s) = (nullable r \<or> nullable s)"
| "nullable (Star _) = True"
| "nullable (Plus r) = nullable r"

fun deriv :: "char \<Rightarrow> regex \<Rightarrow> regex" where
  "deriv c Never = Never"
| "deriv c Empty = Never"
| "deriv c (Lit d) = (if c = d then Empty else Never)"
| "deriv c (Cls rs) = (if in_ranges rs c then Empty else Never)"
| "deriv c Dot = (if c = CHR 0x0A then Never else Empty)"
| "deriv c (Seq r s) =
     (if nullable r then Alt (Seq (deriv c r) s) (deriv c s) else Seq (deriv c r) s)"
| "deriv c (Alt r s) = Alt (deriv c r) (deriv c s)"
| "deriv c (Star r) = Seq (deriv c r) (Star r)"
| "deriv c (Plus r) = Seq (deriv c r) (Star r)"

text \<open>\<^verbatim>\<open>re.fullmatch(r, s)\<close> as a condition: whether the whole of \<open>s\<close> matches \<open>r\<close>.\<close>

fun fullmatch :: "regex \<Rightarrow> string \<Rightarrow> bool" where
  "fullmatch r [] = nullable r"
| "fullmatch r (c # cs) = fullmatch (deriv c r) cs"

text \<open>The strings a pattern matches, as a set: what \<open>fullmatch\<close> is checked against.\<close>

definition conc :: "string set \<Rightarrow> string set \<Rightarrow> string set" where
  "conc A B = {u @ v | u v. u \<in> A \<and> v \<in> B}"

inductive_set star :: "string set \<Rightarrow> string set" for A :: "string set" where
  star_empty: "[] \<in> star A"
| star_more: "u \<in> A \<Longrightarrow> v \<in> star A \<Longrightarrow> u @ v \<in> star A"

fun lang :: "regex \<Rightarrow> string set" where
  "lang Never = {}"
| "lang Empty = {[]}"
| "lang (Lit c) = {[c]}"
| "lang (Cls rs) = {[c] | c. in_ranges rs c}"
| "lang Dot = {[c] | c. c \<noteq> CHR 0x0A}"
| "lang (Seq r s) = conc (lang r) (lang s)"
| "lang (Alt r s) = lang r \<union> lang s"
| "lang (Star r) = star (lang r)"
| "lang (Plus r) = conc (lang r) (star (lang r))"

section \<open>Checking and parsing a path\<close>

text \<open>The classes \<^verbatim>\<open>[a-zA-Z0-9]\<close>, \<^verbatim>\<open>[0-9]\<close> (also \<^verbatim>\<open>\d\<close>) and \<^verbatim>\<open>[0-9a-xA-X\$]\<close>.\<close>

definition alnum_ranges :: "(char \<times> char) list" where
  "alnum_ranges = [(CHR ''a'', CHR ''z''), (CHR ''A'', CHR ''Z''), (CHR ''0'', CHR ''9'')]"

definition digit_ranges :: "(char \<times> char) list" where
  "digit_ranges = [(CHR ''0'', CHR ''9'')]"

definition name_ranges :: "(char \<times> char) list" where
  "name_ranges =
     [(CHR ''0'', CHR ''9''), (CHR ''a'', CHR ''x''), (CHR ''A'', CHR ''X''), (CHR ''$'', CHR ''$'')]"

text \<open>The pattern of line 128: \<^verbatim>\<open>^\$((\.[a-zA-Z0-9]+)*((\[[0-9]+\])+)*)*\<close>.\<close>

definition json_path_regex :: regex where
  "json_path_regex =
     Seq (Lit CHR ''$'')
       (Star (Seq (Star (Seq (Lit CHR ''.'') (Plus (Cls alnum_ranges))))
                  (Star (Plus (Seq (Lit CHR ''['')
                                (Seq (Plus (Cls digit_ranges)) (Lit CHR '']'')))))))"

text \<open>
  \<^verbatim>\<open>__check_path\<close> (lines 117-131): \<open>True\<close> when it returns, \<open>False\<close> when it raises
  \<^verbatim>\<open>ValueError\<close>.
\<close>

definition check_path :: "string \<Rightarrow> bool" where
  "check_path json_path = fullmatch json_path_regex json_path"

text \<open>
  The grammar as the specification writes it, \<^verbatim>\<open>^\$((\.[A-Za-z0-9]+)*(\[[0-9]+\])*)*$\<close>:
  this definition follows the specification, not the source.
\<close>

definition spec_grammar :: regex where
  "spec_grammar =
     Seq (Lit CHR ''$'')
       (Star (Seq (Star (Seq (Lit CHR ''.'')
                      (Plus (Cls [(CHR ''A'', CHR ''Z''), (CHR ''a'', CHR ''z''),
                                  (CHR ''0'', CHR ''9'')]))))
                  (Star (Seq (Lit CHR ''['')
                          (Seq (Plus (Cls [(CHR ''0'', CHR ''9'')])) (Lit CHR '']''))))))"

text \<open>The pattern of line 138: \<^verbatim>\<open>[0-9a-xA-X\$]+\[.*\]$\<close>.\<close>

definition item_regex :: regex where
  "item_regex =
     Seq (Plus (Cls name_ranges)) (Seq (Lit CHR ''['') (Seq (Star Dot) (Lit CHR '']'')))"

text \<open>\<^verbatim>\<open>json_path.split(".")\<close>: the pieces between the dots, empty ones included.\<close>

fun split_dot :: "string \<Rightarrow> string list" where
  "split_dot [] = [[]]"
| "split_dot (c # cs) =
     (if c = CHR ''.'' then [] # split_dot cs
      else (case split_dot cs of piece # pieces \<Rightarrow> (c # piece) # pieces | [] \<Rightarrow> [[c]]))"

text \<open>
  \<^verbatim>\<open>re.findall(r"\d+", item)\<close> (line 141): the maximal runs of digits of the item, from
  left to right. The digits are \<^verbatim>\<open>0\<close> to \<^verbatim>\<open>9\<close>: a path that passed \<^verbatim>\<open>__check_path\<close> has
  no other.
\<close>

function findall_digits :: "string \<Rightarrow> string list" where
  "findall_digits [] = []"
| "findall_digits (c # cs) =
     (if in_ranges digit_ranges c
      then (c # takeWhile (in_ranges digit_ranges) cs)
             # findall_digits (dropWhile (in_ranges digit_ranges) cs)
      else findall_digits cs)"
  by pat_completeness auto
termination
  by (relation "measure length") (auto simp: less_Suc_eq_le length_dropWhile_le)

text \<open>\<^verbatim>\<open>int(key)\<close> on a run of digits (line 66).\<close>

definition int_of_digits :: "string \<Rightarrow> nat" where
  "int_of_digits s = foldl (\<lambda>n c. 10 * n + (of_char c - of_char CHR ''0'')) 0 s"

text \<open>
  The body of the loop of \<^verbatim>\<open>__get_path_components\<close> (lines 138-143): the components one
  item adds. On an item that passed the test of line 138, the first group of the pattern
  of line 139, \<^verbatim>\<open>([0-9a-xA-X\$]+)\<close>, is the longest prefix of the item made of characters
  of that class, since the next character must be \<^verbatim>\<open>[\<close>.
\<close>

definition item_components :: "string \<Rightarrow> component list" where
  "item_components item =
     (if fullmatch item_regex item
      then ComponentKey (takeWhile (in_ranges name_ranges) item)
             # map (\<lambda>v. ComponentIndex (int_of_digits v)) (findall_digits item)
      else [ComponentKey item])"

text \<open>\<^verbatim>\<open>__get_path_components\<close> (lines 134-145).\<close>

definition get_path_components :: "string \<Rightarrow> component list" where
  "get_path_components json_path = concat (map item_components (split_dot json_path))"

section \<open>The builder\<close>

text \<open>
  \<^verbatim>\<open>JsonBuilder.add\<close> (lines 148-178): the exception raised, if any, and the state of the
  object \<^verbatim>\<open>root\<close> when the call ends. When the call returns, it returns that object.
\<close>

definition add :: "pyval \<Rightarrow> string \<Rightarrow> pyval \<Rightarrow> error option \<times> pyval" where
  "add root json_path val =
     (if \<not> json_serializable root then (Some NotSerializableError, root)
      else if \<not> check_path json_path then (Some InvalidPathError, root)
      else if \<not> json_serializable val then (Some NotSerializableError, root)
      else add_loop (get_path_components json_path) val root)"

section \<open>Notions used to state the properties\<close>

text \<open>\<^verbatim>\<open>isinstance(root, dict)\<close>.\<close>

fun is_dict :: "pyval \<Rightarrow> bool" where
  "is_dict (PDict _) = True"
| "is_dict _ = False"

text \<open>The path \<^verbatim>\<open>$.k1.k2...kn\<close> of the keys \<open>k1, ..., kn\<close>.\<close>

definition dotted_path :: "string list \<Rightarrow> string" where
  "dotted_path ks = CHR ''$'' # concat (map (\<lambda>k. CHR ''.'' # k) ks)"

text \<open>The document \<^verbatim>\<open>{k1: {k2: ... {kn: v}}}\<close>.\<close>

fun nested :: "string list \<Rightarrow> pyval \<Rightarrow> pyval" where
  "nested [] v = v"
| "nested (k # ks) v = PDict [(k, nested ks v)]"

text \<open>Reading \<^verbatim>\<open>root[k1][k2]...[kn]\<close>; \<open>None\<close> where Python raises.\<close>

fun lookup_keys :: "pyval \<Rightarrow> string list \<Rightarrow> pyval option" where
  "lookup_keys node [] = Some node"
| "lookup_keys (PDict d) (k # ks) =
     (case map_of d k of None \<Rightarrow> None | Some v \<Rightarrow> lookup_keys v ks)"
| "lookup_keys _ (k # ks) = None"

section \<open>The matcher decides membership\<close>

lemma conc_iff: "s \<in> conc A B \<longleftrightarrow> (\<exists>u v. s = u @ v \<and> u \<in> A \<and> v \<in> B)"
  by (auto simp: conc_def)

lemma Nil_in_conc: "[] \<in> conc A B \<longleftrightarrow> [] \<in> A \<and> [] \<in> B"
  by (auto simp: conc_def)

lemma conc_Cons_iff:
  "c # s \<in> conc A B \<longleftrightarrow>
     ([] \<in> A \<and> c # s \<in> B) \<or> (\<exists>u v. s = u @ v \<and> c # u \<in> A \<and> v \<in> B)"
proof
  assume "c # s \<in> conc A B"
  then obtain u v where uv: "c # s = u @ v" "u \<in> A" "v \<in> B"
    by (auto simp: conc_def)
  show "([] \<in> A \<and> c # s \<in> B) \<or> (\<exists>u v. s = u @ v \<and> c # u \<in> A \<and> v \<in> B)"
  proof (cases u)
    case Nil
    with uv show ?thesis by simp
  next
    case (Cons a u')
    with uv have "s = u' @ v" "c # u' \<in> A" by simp_all
    with uv(3) show ?thesis by blast
  qed
next
  assume "([] \<in> A \<and> c # s \<in> B) \<or> (\<exists>u v. s = u @ v \<and> c # u \<in> A \<and> v \<in> B)"
  then show "c # s \<in> conc A B"
  proof
    assume "[] \<in> A \<and> c # s \<in> B"
    then have "[] @ (c # s) \<in> conc A B" unfolding conc_def by blast
    then show ?thesis by simp
  next
    assume "\<exists>u v. s = u @ v \<and> c # u \<in> A \<and> v \<in> B"
    then obtain u v where "s = u @ v" "c # u \<in> A" "v \<in> B" by blast
    then have "(c # u) @ v \<in> conc A B" unfolding conc_def by blast
    with \<open>s = u @ v\<close> show ?thesis by simp
  qed
qed

lemma star_Cons_split:
  "w \<in> star A \<Longrightarrow> w = c # s \<Longrightarrow> \<exists>u v. s = u @ v \<and> c # u \<in> A \<and> v \<in> star A"
proof (induction rule: star.induct)
  case star_empty
  then show ?case by simp
next
  case (star_more u v)
  show ?case
  proof (cases u)
    case Nil
    with star_more show ?thesis by simp
  next
    case (Cons a u')
    with star_more.prems have "s = u' @ v" "a = c" by simp_all
    with star_more.hyps Cons show ?thesis by blast
  qed
qed

lemma star_Cons_iff:
  "c # s \<in> star A \<longleftrightarrow> (\<exists>u v. s = u @ v \<and> c # u \<in> A \<and> v \<in> star A)"
proof
  assume "c # s \<in> star A"
  then show "\<exists>u v. s = u @ v \<and> c # u \<in> A \<and> v \<in> star A"
    using star_Cons_split by blast
next
  assume "\<exists>u v. s = u @ v \<and> c # u \<in> A \<and> v \<in> star A"
  then obtain u v where "s = u @ v" "c # u \<in> A" "v \<in> star A" by blast
  then have "(c # u) @ v \<in> star A" by (blast intro: star_more)
  with \<open>s = u @ v\<close> show "c # s \<in> star A" by simp
qed

lemma nullable_lang: "nullable r \<longleftrightarrow> [] \<in> lang r"
  by (induction r) (auto simp: Nil_in_conc intro: star_empty)

lemma deriv_lang: "s \<in> lang (deriv c r) \<longleftrightarrow> c # s \<in> lang r"
proof (induction r arbitrary: s)
  case (Seq r1 r2)
  have left: "s \<in> conc (lang (deriv c r1)) (lang r2) \<longleftrightarrow>
      (\<exists>u v. s = u @ v \<and> c # u \<in> lang r1 \<and> v \<in> lang r2)"
    by (simp add: conc_iff Seq.IH(1))
  show ?case
    by (simp add: conc_Cons_iff nullable_lang left Seq.IH(2)) blast
next
  case (Star r)
  have "s \<in> conc (lang (deriv c r)) (star (lang r)) \<longleftrightarrow>
      (\<exists>u v. s = u @ v \<and> c # u \<in> lang r \<and> v \<in> star (lang r))"
    by (simp add: conc_iff Star.IH)
  then show ?case
    by (simp add: star_Cons_iff)
next
  case (Plus r)
  have left: "s \<in> conc (lang (deriv c r)) (star (lang r)) \<longleftrightarrow>
      (\<exists>u v. s = u @ v \<and> c # u \<in> lang r \<and> v \<in> star (lang r))"
    by (simp add: conc_iff Plus.IH)
  have "[] \<in> lang r \<and> c # s \<in> star (lang r) \<Longrightarrow>
      \<exists>u v. s = u @ v \<and> c # u \<in> lang r \<and> v \<in> star (lang r)"
    by (simp add: star_Cons_iff)
  then show ?case
    by (simp add: conc_Cons_iff left) blast
qed auto

lemma fullmatch_lang: "fullmatch r s \<longleftrightarrow> s \<in> lang r"
  by (induction s arbitrary: r) (simp_all add: nullable_lang deriv_lang)

lemma star_single: "u \<in> A \<Longrightarrow> u \<in> star A"
  using star_more [of u A "[]"] by (simp add: star_empty)

lemma star_append: "u \<in> star A \<Longrightarrow> v \<in> star A \<Longrightarrow> u @ v \<in> star A"
  by (induction rule: star.induct) (auto intro: star_more)

lemma star_mono: "w \<in> star A \<Longrightarrow> A \<subseteq> B \<Longrightarrow> w \<in> star B"
  by (induction rule: star.induct) (auto intro: star_empty star_more)

lemma star_idem: "w \<in> star (star A) \<Longrightarrow> w \<in> star A"
  by (induction rule: star.induct) (auto intro: star_empty star_append)

lemma star_plus: "star (conc A (star A)) = star A"
proof
  have "conc A (star A) \<subseteq> star A"
    by (auto simp: conc_def intro: star_more)
  then show "star (conc A (star A)) \<subseteq> star A"
    using star_mono star_idem by blast
next
  have "A \<subseteq> conc A (star A)"
  proof
    fix u assume "u \<in> A"
    then have "u @ [] \<in> conc A (star A)"
      unfolding conc_def using star_empty by blast
    then show "u \<in> conc A (star A)" by simp
  qed
  then show "star A \<subseteq> star (conc A (star A))"
    using star_mono by blast
qed

text \<open>The pattern of the source and the grammar of the specification accept the same paths.\<close>

lemma alnum_ranges_spec:
  "in_ranges alnum_ranges c =
     in_ranges [(CHR ''A'', CHR ''Z''), (CHR ''a'', CHR ''z''), (CHR ''0'', CHR ''9'')] c"
  by (auto simp: in_ranges_def alnum_ranges_def)

lemma lang_json_path_regex: "lang json_path_regex = lang spec_grammar"
  by (simp add: json_path_regex_def spec_grammar_def star_plus alnum_ranges_spec digit_ranges_def)

lemma check_path_spec_grammar: "check_path json_path = fullmatch spec_grammar json_path"
  by (simp add: check_path_def fullmatch_lang lang_json_path_regex)

section \<open>The first group of the item pattern\<close>

text \<open>
  An item that matches the pattern of line 138 is a non-empty run of characters of the
  class, then \<^verbatim>\<open>[\<close>: the run is what \<open>item_components\<close> takes as the key.
\<close>

lemma class_star_chars: "u \<in> star (lang (Cls rs)) \<Longrightarrow> \<forall>c\<in>set u. in_ranges rs c"
  by (induction rule: star.induct) auto

lemma class_plus_chars:
  "u \<in> lang (Plus (Cls rs)) \<Longrightarrow> u \<noteq> [] \<and> (\<forall>c\<in>set u. in_ranges rs c)"
proof -
  assume "u \<in> lang (Plus (Cls rs))"
  then obtain a b where u: "u = a @ b" and a: "a \<in> lang (Cls rs)" and b: "b \<in> star (lang (Cls rs))"
    by (auto simp: conc_iff)
  from b have "\<forall>c\<in>set b. in_ranges rs c" by (rule class_star_chars)
  with u a show ?thesis by auto
qed

lemma item_regex_first_group:
  assumes "fullmatch item_regex item"
  shows "\<exists>rest. item = takeWhile (in_ranges name_ranges) item @ CHR ''['' # rest \<and>
           takeWhile (in_ranges name_ranges) item \<noteq> []"
proof -
  from assms have "item \<in> conc (lang (Plus (Cls name_ranges)))
      (lang (Seq (Lit CHR ''['') (Seq (Star Dot) (Lit CHR '']''))))"
    by (simp only: fullmatch_lang item_regex_def lang.simps(6))
  then obtain u w where item: "item = u @ w" and u: "u \<in> lang (Plus (Cls name_ranges))"
    and w: "w \<in> lang (Seq (Lit CHR ''['') (Seq (Star Dot) (Lit CHR '']'')))"
    unfolding conc_iff by blast
  from w obtain rest where rest: "w = CHR ''['' # rest"
    by (auto simp: conc_iff)
  from u have chars: "u \<noteq> []" "\<forall>c\<in>set u. in_ranges name_ranges c"
    using class_plus_chars by blast+
  have "\<not> in_ranges name_ranges CHR ''[''"
    by (simp add: in_ranges_def name_ranges_def)
  with chars(2) have "takeWhile (in_ranges name_ranges) (u @ CHR ''['' # rest) = u"
    by (simp add: takeWhile_tail)
  with item rest chars(1) show ?thesis by auto
qed

section \<open>The walk\<close>

text \<open>
  The subscript of lines 58 and 97 never fails: the reference an \<^verbatim>\<open>add\<close> method returns
  always points to an object.
\<close>

lemma component_add_deref:
  "component_add c node nx v = Inr (node', r) \<Longrightarrow> deref node' r \<noteq> None"
proof (cases c)
  case (ComponentKey key)
  assume a: "component_add c node nx v = Inr (node', r)"
  show ?thesis
  proof (cases node)
    case (PDict d)
    with a ComponentKey show ?thesis
      by (auto simp: update_conv' split: if_splits)
  qed (use a ComponentKey in simp_all)
next
  case (ComponentIndex key)
  assume a: "component_add c node nx v = Inr (node', r)"
  show ?thesis
  proof (cases node)
    case (PList xs)
    with a ComponentIndex show ?thesis
      by (auto simp: Let_def split: if_splits)
  qed (use a ComponentIndex in simp_all)
qed

lemma component_add_error:
  "component_add c node nx v = Inl e \<Longrightarrow> e = TypeMismatchError \<or> e = IndexGapError"
  by (cases c; cases node) (auto simp: Let_def split: if_splits)

lemma add_loop_Cons_raise:
  "component_add c node (case cs of [] \<Rightarrow> None | c' # _ \<Rightarrow> Some c')
     (if cs \<noteq> [] then PNotSet else v) = Inl e \<Longrightarrow>
   add_loop (c # cs) v node = (Some e, node)"
  by (cases cs) (simp_all add: Let_def)

lemma add_loop_Cons_descend:
  "component_add c node (case cs of [] \<Rightarrow> None | c' # _ \<Rightarrow> Some c')
     (if cs \<noteq> [] then PNotSet else v) = Inr (node', r) \<Longrightarrow>
   deref node' r = Some below \<Longrightarrow>
   add_loop (c # cs) v node =
     (fst (add_loop cs v below), reseat node' r (snd (add_loop cs v below)))"
  by (cases cs) (simp_all add: Let_def split_beta)

lemma add_loop_outcome:
  "fst (add_loop cs v node) \<in> {None, Some TypeMismatchError, Some IndexGapError}"
proof (induction cs arbitrary: node)
  case Nil
  show ?case by simp
next
  case (Cons c cs)
  let ?nx = "case cs of [] \<Rightarrow> None | c' # _ \<Rightarrow> Some c'"
  let ?cv = "if cs \<noteq> [] then PNotSet else v"
  show ?case
  proof (cases "component_add c node ?nx ?cv")
    case (Inl e)
    then show ?thesis
      using component_add_error [OF Inl] add_loop_Cons_raise [OF Inl] by auto
  next
    case (Inr p)
    obtain node' r where p: "p = (node', r)" by (cases p)
    from Inr p component_add_deref obtain below where b: "deref node' r = Some below"
      by blast
    from Inr p have "component_add c node ?nx ?cv = Inr (node', r)" by simp
    from add_loop_Cons_descend [OF this b] Cons.IH [of below]
    show ?thesis by simp
  qed
qed

section \<open>Parsing always starts with a key\<close>

lemma split_dot_not_Nil: "split_dot s \<noteq> []"
  by (induction s) (auto split: list.splits)

lemma item_components_Key_first:
  "\<exists>key rest. item_components item = ComponentKey key # rest"
  by (simp add: item_components_def)

lemma get_path_components_Key_first:
  "\<exists>key rest. get_path_components json_path = ComponentKey key # rest"
proof -
  obtain item items where "split_dot json_path = item # items"
    using split_dot_not_Nil by (cases "split_dot json_path") auto
  moreover obtain key rest where "item_components item = ComponentKey key # rest"
    using item_components_Key_first by blast
  ultimately show ?thesis
    by (simp add: get_path_components_def)
qed

lemma json_serializable_not_NotSet: "json_serializable v \<Longrightarrow> v \<noteq> PNotSet"
  by auto

lemma add_checked:
  "json_serializable root \<Longrightarrow> fullmatch spec_grammar json_path \<Longrightarrow> json_serializable v \<Longrightarrow>
   add root json_path v = add_loop (get_path_components json_path) v root"
  by (simp add: add_def check_path_spec_grammar)

lemma Key_on_non_dict:
  "\<not> is_dict node \<Longrightarrow> add_loop (ComponentKey key # rest) v node = (Some TypeMismatchError, node)"
  by (rule add_loop_Cons_raise) (cases node; simp)

lemma components_root: "get_path_components ''$'' = [ComponentKey ''$'']"
  by code_simp

lemma grammar_root: "fullmatch spec_grammar ''$''"
  by code_simp

section \<open>The order of the checks\<close>

lemma add_unserializable_root:
  "\<not> json_serializable root \<Longrightarrow> add root json_path v = (Some NotSerializableError, root)"
  by (simp add: add_def)

lemma add_invalid_path:
  "json_serializable root \<Longrightarrow> \<not> fullmatch spec_grammar json_path \<Longrightarrow>
   add root json_path v = (Some InvalidPathError, root)"
  by (simp add: add_def check_path_spec_grammar)

lemma add_unserializable_value:
  "json_serializable root \<Longrightarrow> fullmatch spec_grammar json_path \<Longrightarrow> \<not> json_serializable v \<Longrightarrow>
   add root json_path v = (Some NotSerializableError, root)"
  by (simp add: add_def check_path_spec_grammar)

section \<open>A call that returns leaves no placeholder\<close>

text \<open>
  When \<^verbatim>\<open>add\<close> returns, no instance of \<^verbatim>\<open>NotSet\<close> is in the tree: an intermediate Index
  component that grows its list hands the placeholder to the next component, which
  raises. The placeholder can only stay behind a call that raises.
\<close>

lemma clean_update:
  "\<not> list_ex (\<lambda>kv. contains_NotSet (snd kv)) d \<Longrightarrow> \<not> contains_NotSet x \<Longrightarrow>
   \<not> list_ex (\<lambda>kv. contains_NotSet (snd kv)) (AList.update k x d)"
  by (induction d) auto

lemma clean_list_update:
  "\<not> list_ex contains_NotSet xs \<Longrightarrow> \<not> contains_NotSet x \<Longrightarrow>
   \<not> list_ex contains_NotSet (xs[i := x])"
  using set_update_subset_insert [of xs i x] by (auto simp: list_ex_iff)

lemma clean_map_of:
  "\<not> list_ex (\<lambda>kv. contains_NotSet (snd kv)) d \<Longrightarrow> map_of d k = Some x \<Longrightarrow>
   \<not> contains_NotSet x"
  using map_of_SomeD [of d k x] by (fastforce simp: list_ex_iff)

lemma clean_nth:
  "\<not> list_ex contains_NotSet xs \<Longrightarrow> i < length xs \<Longrightarrow> \<not> contains_NotSet (xs ! i)"
  by (auto simp: list_ex_iff)

lemma ComponentKey_add_clean:
  assumes "ComponentKey_add key child nx cv = Inr (child', r)"
    and "\<not> contains_NotSet child" and "cv = PNotSet \<or> \<not> contains_NotSet cv"
    and "deref child' r = Some below"
  shows "\<not> contains_NotSet below \<and>
         (\<forall>b. \<not> contains_NotSet b \<longrightarrow> \<not> contains_NotSet (reseat child' r b))"
proof (cases child)
  case (PDict d)
  with assms(2) have d: "\<not> list_ex (\<lambda>kv. contains_NotSet (snd kv)) d" by simp
  show ?thesis
  proof (cases "key = ''$''")
    case True
    with assms PDict show ?thesis by auto
  next
    case k: False
    show ?thesis
    proof (cases "cv = PNotSet")
      case False
      with assms(3) have "\<not> contains_NotSet cv" by simp
      with assms(1,4) PDict k False d show ?thesis
        by (auto simp: clean_update)
    next
      case True
      show ?thesis
      proof (cases "map_of d key")
        case None
        with assms(1,4) PDict k True d show ?thesis
          by (auto simp: clean_update update_conv' split: if_splits)
      next
        case (Some x)
        with assms(1,4) PDict k True d show ?thesis
          by (auto simp: clean_update dest: clean_map_of)
      qed
    qed
  qed
qed (use assms in simp_all)

lemma ComponentIndex_add_clean:
  assumes "ComponentIndex_add key child nx cv = Inr (child', r)"
    and "\<not> contains_NotSet child" and "cv = PNotSet \<or> \<not> contains_NotSet cv"
    and "deref child' r = Some below"
  shows "(contains_NotSet below \<longrightarrow> below = PNotSet \<and> cv = PNotSet) \<and>
         (\<forall>b. \<not> contains_NotSet b \<longrightarrow> \<not> contains_NotSet (reseat child' r b))"
proof (cases child)
  case (PList xs)
  with assms(2) have xs: "\<not> list_ex contains_NotSet xs" by simp
  from assms(1) PList have le: "key \<le> length xs" and r: "r = Item key"
    by (auto simp: Let_def split: if_splits)
  show ?thesis
  proof (cases "cv = PNotSet")
    case False
    with assms(3) have cv: "\<not> contains_NotSet cv" by simp
    from assms(1) PList False le
    have c': "child' = PList ((if length xs = key then xs @ [PNotSet] else xs)[key := cv])"
      by (auto simp: Let_def)
    have eq: "(if length xs = key then xs @ [PNotSet] else xs)[key := cv]
        = (if length xs = key then xs @ [cv] else xs[key := cv])"
      by auto
    have clean: "\<not> list_ex contains_NotSet (if length xs = key then xs @ [cv] else xs[key := cv])"
      using xs cv by (auto simp: clean_list_update)
    have len: "key < length (if length xs = key then xs @ [cv] else xs[key := cv])"
      using le by auto
    from assms(4) c' r eq len
    have "below = (if length xs = key then xs @ [cv] else xs[key := cv]) ! key"
      by (auto split: if_splits)
    with clean len have "\<not> contains_NotSet below"
      using clean_nth by blast
    moreover have "\<not> contains_NotSet (reseat child' r b)" if "\<not> contains_NotSet b" for b
    proof -
      have "\<not> list_ex contains_NotSet
          ((if length xs = key then xs @ [cv] else xs[key := cv])[key := b])"
        using clean that by (rule clean_list_update)
      with c' r eq show ?thesis by simp
    qed
    ultimately show ?thesis by blast
  next
    case True
    let ?e = "if is_ComponentKey nx then PDict [] else PList []"
    have e: "\<not> contains_NotSet ?e" by simp
    show ?thesis
    proof (cases "length xs = key")
      case grow: True
      with assms(1) PList True
      have c': "child' = PList (xs @ [PNotSet, ?e])"
        by (auto simp: Let_def)
      with assms(4) r grow have "below = PNotSet"
        by (auto simp: nth_append)
      moreover have "\<not> contains_NotSet (reseat child' r b)" if "\<not> contains_NotSet b" for b
        using c' r grow xs that by auto
      ultimately show ?thesis using True by blast
    next
      case False
      with le have lt: "key < length xs" by simp
      from assms(1) PList True False lt
      have c': "child' = PList (xs @ [?e])"
        by (auto simp: Let_def)
      with assms(4) r lt have "below = xs ! key"
        by (auto simp: nth_append)
      with xs lt have "\<not> contains_NotSet below"
        using clean_nth by blast
      moreover have "\<not> contains_NotSet (reseat child' r b)" if "\<not> contains_NotSet b" for b
      proof -
        have "\<not> list_ex contains_NotSet (xs[key := b])"
          using xs that by (rule clean_list_update)
        with c' r lt show ?thesis
          by (auto simp: list_update_append)
      qed
      ultimately show ?thesis by blast
    qed
  qed
qed (use assms in simp_all)

lemma add_loop_on_NotSet: "cs \<noteq> [] \<Longrightarrow> fst (add_loop cs v PNotSet) \<noteq> None"
proof (cases cs)
  case Nil
  assume "cs \<noteq> []"
  with Nil show ?thesis by simp
next
  case (Cons c rest)
  have "add_loop (c # rest) v PNotSet = (Some TypeMismatchError, PNotSet)"
    by (rule add_loop_Cons_raise) (cases c; simp)
  with Cons show ?thesis by simp
qed

lemma add_loop_returns_clean:
  "\<not> contains_NotSet child \<Longrightarrow> \<not> contains_NotSet v \<Longrightarrow>
   fst (add_loop cs v child) = None \<Longrightarrow> \<not> contains_NotSet (snd (add_loop cs v child))"
proof (induction cs arbitrary: child)
  case Nil
  then show ?case by simp
next
  case (Cons c cs)
  let ?nx = "case cs of [] \<Rightarrow> None | c' # _ \<Rightarrow> Some c'"
  let ?cv = "if cs \<noteq> [] then PNotSet else v"
  have cv: "?cv = PNotSet \<or> \<not> contains_NotSet ?cv"
    using Cons.prems(2) by simp
  show ?case
  proof (cases "component_add c child ?nx ?cv")
    case (Inl e)
    from add_loop_Cons_raise [OF Inl] Cons.prems(3) show ?thesis by simp
  next
    case (Inr p)
    obtain child' r where p: "p = (child', r)" by (cases p)
    with Inr have step: "component_add c child ?nx ?cv = Inr (child', r)" by simp
    from step component_add_deref obtain below where b: "deref child' r = Some below"
      by blast
    note unfold = add_loop_Cons_descend [OF step b]
    with Cons.prems(3) have ok: "fst (add_loop cs v below) = None" by simp
    have facts: "(contains_NotSet below \<longrightarrow> below = PNotSet \<and> ?cv = PNotSet) \<and>
         (\<forall>b. \<not> contains_NotSet b \<longrightarrow> \<not> contains_NotSet (reseat child' r b))"
    proof (cases c)
      case (ComponentKey key)
      with step have "ComponentKey_add key child ?nx ?cv = Inr (child', r)" by simp
      from ComponentKey_add_clean [OF this Cons.prems(1) cv b] show ?thesis by blast
    next
      case (ComponentIndex key)
      with step have "ComponentIndex_add key child ?nx ?cv = Inr (child', r)" by simp
      from ComponentIndex_add_clean [OF this Cons.prems(1) cv b] show ?thesis by blast
    qed
    have "\<not> contains_NotSet below"
    proof
      assume "contains_NotSet below"
      with facts have "below = PNotSet" "?cv = PNotSet" by blast+
      with Cons.prems(2) have "cs \<noteq> []" by (auto split: if_splits)
      with \<open>below = PNotSet\<close> ok add_loop_on_NotSet show False by blast
    qed
    then have "\<not> contains_NotSet (snd (add_loop cs v below))"
      using Cons.prems(2) ok by (rule Cons.IH)
    with facts unfold show ?thesis by simp
  qed
qed

lemma json_serializable_clean: "json_serializable x \<Longrightarrow> \<not> contains_NotSet x"
  by (induction x rule: json_serializable.induct) (auto simp: list_all_iff list_ex_iff)

lemma add_returns_clean:
  "fst (add root json_path v) = None \<Longrightarrow> \<not> contains_NotSet (snd (add root json_path v))"
  by (auto simp: add_def json_serializable_clean add_loop_returns_clean split: if_splits)

section \<open>Paths of keys\<close>

text \<open>
  A path \<^verbatim>\<open>$.k1.k2...kn\<close> whose keys are made of letters and digits is in the grammar,
  and its components are the root key followed by one Key component for each key.
\<close>

lemma alnum_not_special:
  "in_ranges alnum_ranges c \<Longrightarrow> c \<noteq> CHR ''.'' \<and> c \<noteq> CHR '']'' \<and> c \<noteq> CHR ''$''"
  by (auto simp: in_ranges_def alnum_ranges_def)

lemma split_dot_no_dot: "CHR ''.'' \<notin> set s \<Longrightarrow> split_dot s = [s]"
  by (induction s) auto

lemma split_dot_append_dot:
  "CHR ''.'' \<notin> set s \<Longrightarrow> split_dot (s @ CHR ''.'' # t) = s # split_dot t"
  by (induction s) auto

lemma split_dot_dotted:
  "\<forall>k\<in>set ks. CHR ''.'' \<notin> set k \<Longrightarrow> CHR ''.'' \<notin> set s \<Longrightarrow>
   split_dot (s @ concat (map (\<lambda>k. CHR ''.'' # k) ks)) = s # ks"
proof (induction ks arbitrary: s)
  case Nil
  then show ?case by (simp add: split_dot_no_dot)
next
  case (Cons k ks)
  have "split_dot (s @ concat (map (\<lambda>k. CHR ''.'' # k) (k # ks)))
      = split_dot (s @ CHR ''.'' # (k @ concat (map (\<lambda>k. CHR ''.'' # k) ks)))"
    by simp
  also have "\<dots> = s # split_dot (k @ concat (map (\<lambda>k. CHR ''.'' # k) ks))"
    using Cons.prems(2) by (rule split_dot_append_dot)
  also have "split_dot (k @ concat (map (\<lambda>k. CHR ''.'' # k) ks)) = k # ks"
    using Cons.prems(1) by (intro Cons.IH) simp_all
  finally show ?case .
qed

lemma item_regex_ends_with_bracket:
  "fullmatch item_regex item \<Longrightarrow> \<exists>t. item = t @ '']''"
  by (auto simp: fullmatch_lang item_regex_def conc_iff)

lemma item_components_plain:
  "CHR '']'' \<notin> set item \<Longrightarrow> item_components item = [ComponentKey item]"
  using item_regex_ends_with_bracket [of item] by (auto simp: item_components_def)

lemma get_path_components_dotted:
  assumes "\<forall>k\<in>set ks. \<forall>c\<in>set k. in_ranges alnum_ranges c"
  shows "get_path_components (dotted_path ks) = ComponentKey ''$'' # map ComponentKey ks"
proof -
  have nodot: "\<forall>k\<in>set ks. CHR ''.'' \<notin> set k"
    using assms alnum_not_special by blast
  have nobr: "\<forall>k\<in>set ks. CHR '']'' \<notin> set k"
    using assms alnum_not_special by blast
  have "split_dot (''$'' @ concat (map (\<lambda>k. CHR ''.'' # k) ks)) = ''$'' # ks"
    using nodot by (rule split_dot_dotted) simp
  then have "split_dot (dotted_path ks) = ''$'' # ks"
    by (simp add: dotted_path_def)
  moreover have "concat (map item_components ks) = map ComponentKey ks"
    using nobr by (induction ks) (simp_all add: item_components_plain)
  moreover have "item_components ''$'' = [ComponentKey ''$'']"
    by (rule item_components_plain) simp
  ultimately show ?thesis
    by (simp add: get_path_components_def)
qed

lemma class_star: "\<forall>c\<in>set k. in_ranges rs c \<Longrightarrow> k \<in> star (lang (Cls rs))"
proof (induction k)
  case Nil
  show ?case by (rule star_empty)
next
  case (Cons c k)
  then have "[c] \<in> lang (Cls rs)" "k \<in> star (lang (Cls rs))" by simp_all
  then have "[c] @ k \<in> star (lang (Cls rs))" by (rule star_more)
  then show ?case by simp
qed

lemma class_plus:
  "k \<noteq> [] \<Longrightarrow> \<forall>c\<in>set k. in_ranges rs c \<Longrightarrow> k \<in> lang (Plus (Cls rs))"
proof (cases k)
  case Nil
  assume "k \<noteq> []"
  with Nil show ?thesis by simp
next
  case (Cons c k')
  assume "\<forall>c\<in>set k. in_ranges rs c"
  with Cons have c: "[c] \<in> lang (Cls rs)" and "\<forall>c\<in>set k'. in_ranges rs c"
    by simp_all
  then have "k' \<in> star (lang (Cls rs))"
    by (intro class_star)
  with c have "[c] \<in> lang (Cls rs)" "k' \<in> star (lang (Cls rs))" .
  then have "[c] @ k' \<in> conc (lang (Cls rs)) (star (lang (Cls rs)))"
    unfolding conc_def by blast
  with Cons show ?thesis by simp
qed

lemma dotted_path_in_grammar:
  assumes "\<forall>k\<in>set ks. k \<noteq> [] \<and> (\<forall>c\<in>set k. in_ranges alnum_ranges c)"
  shows "fullmatch spec_grammar (dotted_path ks)"
proof -
  let ?K = "lang (Seq (Lit CHR ''.'') (Plus (Cls alnum_ranges)))"
  let ?I = "lang (Plus (Seq (Lit CHR ''['') (Seq (Plus (Cls digit_ranges)) (Lit CHR '']''))))"
  let ?B = "conc (star ?K) (star ?I)"
  have key: "CHR ''.'' # k \<in> ?B" if "k \<in> set ks" for k
  proof -
    from that assms have "k \<noteq> []" "\<forall>c\<in>set k. in_ranges alnum_ranges c"
      by blast+
    then have "k \<in> lang (Plus (Cls alnum_ranges))"
      by (rule class_plus)
    then have "[CHR ''.''] @ k \<in> ?K"
      unfolding lang.simps(6) conc_def by fastforce
    then have "CHR ''.'' # k \<in> star ?K"
      using star_single by fastforce
    then have "(CHR ''.'' # k) @ [] \<in> ?B"
      unfolding conc_def using star_empty by blast
    then show ?thesis by simp
  qed
  have "concat (map (\<lambda>k. CHR ''.'' # k) ks) \<in> star ?B"
    using key
  proof (induction ks)
    case Nil
    show ?case by (simp add: star_empty)
  next
    case (Cons k ks)
    then have "CHR ''.'' # k \<in> ?B" "concat (map (\<lambda>k. CHR ''.'' # k) ks) \<in> star ?B"
      by simp_all
    then have "(CHR ''.'' # k) @ concat (map (\<lambda>k. CHR ''.'' # k) ks) \<in> star ?B"
      by (rule star_more)
    then show ?case by simp
  qed
  then have "[CHR ''$''] @ concat (map (\<lambda>k. CHR ''.'' # k) ks) \<in> conc {[CHR ''$'']} (star ?B)"
    unfolding conc_def by blast
  then have "dotted_path ks \<in> lang json_path_regex"
    by (simp add: dotted_path_def json_path_regex_def)
  then show ?thesis
    by (simp add: fullmatch_lang lang_json_path_regex)
qed

lemma add_loop_keys:
  "ks \<noteq> [] \<Longrightarrow> ''$'' \<notin> set ks \<Longrightarrow> v \<noteq> PNotSet \<Longrightarrow>
   add_loop (map ComponentKey ks) v (PDict []) = (None, nested ks v)"
proof (induction ks)
  case Nil
  then show ?case by simp
next
  case (Cons k ks)
  show ?case
  proof (cases ks)
    case Nil
    with Cons.prems show ?thesis by simp
  next
    case (Cons k2 ks2)
    with Cons.IH Cons.prems have "add_loop (map ComponentKey ks) v (PDict []) = (None, nested ks v)"
      by simp
    moreover from Cons.prems have "k \<noteq> ''$''" by auto
    ultimately show ?thesis
      using Cons
      by (simp del: add_loop.simps(2) add: add_loop.simps(2) [of "ComponentKey k"])
  qed
qed

lemma lookup_keys_nested: "lookup_keys (nested ks v) ks = Some v"
  by (induction ks) simp_all

lemma add_loop_dotted:
  assumes "ks \<noteq> []" and "''$'' \<notin> set ks" and "v \<noteq> PNotSet"
  shows "add_loop (ComponentKey ''$'' # map ComponentKey ks) v (PDict []) = (None, nested ks v)"
proof -
  have "add_loop (map ComponentKey ks) v (PDict []) = (None, nested ks v)"
    using assms by (rule add_loop_keys)
  moreover obtain k ks' where "ks = k # ks'"
    using assms(1) by (cases ks) auto
  ultimately show ?thesis
    by (simp del: add_loop.simps(2) add: add_loop.simps(2) [of "ComponentKey ''$''"])
qed

lemma components_a0:
  "get_path_components ''$.a[0]'' = [ComponentKey ''$'', ComponentKey ''a'', ComponentIndex 0]"
  by code_simp

lemma components_a1:
  "get_path_components ''$.a[1]'' = [ComponentKey ''$'', ComponentKey ''a'', ComponentIndex 1]"
  by code_simp

lemma grammar_a0: "fullmatch spec_grammar ''$.a[0]''"
  by code_simp

lemma grammar_a1: "fullmatch spec_grammar ''$.a[1]''"
  by code_simp

lemma components_a2:
  "get_path_components ''$.a[2]'' = [ComponentKey ''$'', ComponentKey ''a'', ComponentIndex 2]"
  by code_simp

lemma grammar_a2: "fullmatch spec_grammar ''$.a[2]''"
  by code_simp

section \<open>The properties\<close>

text \<open>
  C1: an Index component that is not the last one, applied to a list whose length is its
  index, is meant to append one placeholder, replace it by an empty container and return
  that container, so that \<^verbatim>\<open>add({}, "$.a[0].b", v)\<close> gives \<^verbatim>\<open>{"a": [{"b": v}]}\<close>. The code
  of lines 90-95 appends the empty container after the placeholder instead: the list
  grows by two, the placeholder stays at the index and is what is returned, and the next
  component fails on it.
\<close>

theorem index_grow_keeps_placeholder:
  "ComponentIndex_add (length xs) (PList xs) (Some (ComponentKey k)) PNotSet
     = Inr (PList (xs @ [PNotSet, PDict []]), Item (length xs)) \<and>
   ComponentIndex_add (length xs) (PList xs) (Some (ComponentIndex j)) PNotSet
     = Inr (PList (xs @ [PNotSet, PList []]), Item (length xs)) \<and>
   deref (PList (xs @ [PNotSet, PDict []])) (Item (length xs)) = Some PNotSet \<and>
   add (PDict []) ''$.a[0].b'' (PInt 1)
     = (Some TypeMismatchError, PDict [(''a'', PList [PNotSet, PDict []])])"
proof -
  have "add (PDict []) ''$.a[0].b'' (PInt 1)
     = (Some TypeMismatchError, PDict [(''a'', PList [PNotSet, PDict []])])"
    by code_simp
  then show ?thesis
    by (simp add: nth_append)
qed

text \<open>
  C2: a segment \<^verbatim>\<open>name[i1][i2]...\<close> is meant to give one Key component holding the name
  and one Index component for each bracketed integer, whatever the name. The class of
  line 138 stops at \<^verbatim>\<open>x\<close> and \<^verbatim>\<open>X\<close>, so a name with \<^verbatim>\<open>y\<close> or \<^verbatim>\<open>z\<close> makes the whole
  segment one key; and line 141 collects the digits of the whole segment, so the digits
  of the name become indices too. Both paths pass the check of the path.
\<close>

theorem bracket_segment_misparsed:
  "check_path ''$.y[0]'' \<and>
   get_path_components ''$.y[0]'' = [ComponentKey ''$'', ComponentKey ''y[0]''] \<and>
   add (PDict []) ''$.y[0]'' (PInt 1) = (None, PDict [(''y[0]'', PInt 1)]) \<and>
   check_path ''$.a1[0]'' \<and>
   get_path_components ''$.a1[0]''
     = [ComponentKey ''$'', ComponentKey ''a1'', ComponentIndex 1, ComponentIndex 0]"
  by code_simp

text \<open>
  C3: no instance of \<^verbatim>\<open>NotSet\<close> is meant to be in the tree under \<^verbatim>\<open>root\<close> after a call
  of \<^verbatim>\<open>add\<close>, whether it returns or raises. After \<^verbatim>\<open>add({}, "$.a[0].b", 1)\<close>, which
  raises, the placeholder of line 85 is still in the list under \<^verbatim>\<open>"a"\<close>.
\<close>

theorem NotSet_left_in_root:
  "json_serializable (PDict []) \<and> json_serializable (PInt 1) \<and>
   fst (add (PDict []) ''$.a[0].b'' (PInt 1)) = Some TypeMismatchError \<and>
   contains_NotSet (snd (add (PDict []) ''$.a[0].b'' (PInt 1)))"
  by code_simp

text \<open>
  C4: an Index component that is not the last one, applied with an index below the length
  of the list, is meant to leave the list as it is and return the item at the index. The
  item at the index is returned, but lines 90-95 append an empty container to the list
  all the same.
\<close>

theorem index_descent_appends:
  "ComponentIndex_add 0 (PList [PDict []]) (Some (ComponentKey ''b'')) PNotSet
     = Inr (PList [PDict [], PDict []], Item 0) \<and>
   add (PDict [(''a'', PList [PDict []])]) ''$.a[0].b'' (PInt 1)
     = (None, PDict [(''a'', PList [PDict [(''b'', PInt 1)], PDict []])])"
  by code_simp

text \<open>
  C5: for keys \<open>k1, ..., kn\<close> (\<open>n \<ge> 1\<close>) made of letters and digits and a serializable
  value \<open>v\<close>, the path \<^verbatim>\<open>$.k1.k2...kn\<close> is in the grammar and \<^verbatim>\<open>add({}, path, v)\<close>
  returns \<^verbatim>\<open>{k1: {k2: ... {kn: v}}}\<close>, so that reading \<^verbatim>\<open>root[k1][k2]...[kn]\<close> gives
  \<open>v\<close>; \<^verbatim>\<open>add({}, "$.a[0]", v)\<close> returns \<^verbatim>\<open>{"a": [v]}\<close>, and on that root
  \<^verbatim>\<open>add(root, "$.a[1]", v2)\<close> returns \<^verbatim>\<open>{"a": [v, v2]}\<close>.
\<close>

theorem value_lands_at_path:
  assumes "ks \<noteq> []"
    and "\<forall>k\<in>set ks. k \<noteq> [] \<and> (\<forall>c\<in>set k. in_ranges alnum_ranges c)"
    and "json_serializable v" and "json_serializable v2"
  shows "fullmatch spec_grammar (dotted_path ks) \<and>
         add (PDict []) (dotted_path ks) v = (None, nested ks v) \<and>
         lookup_keys (snd (add (PDict []) (dotted_path ks) v)) ks = Some v \<and>
         add (PDict []) ''$.a[0]'' v = (None, PDict [(''a'', PList [v])]) \<and>
         add (PDict [(''a'', PList [v])]) ''$.a[1]'' v2 = (None, PDict [(''a'', PList [v, v2])])"
proof -
  have g: "fullmatch spec_grammar (dotted_path ks)"
    using assms(2) by (rule dotted_path_in_grammar)
  have v: "v \<noteq> PNotSet" "v2 \<noteq> PNotSet"
    using assms(3,4) by auto
  have nodollar: "''$'' \<notin> set ks"
    using assms(2) alnum_not_special by fastforce
  have "get_path_components (dotted_path ks) = ComponentKey ''$'' # map ComponentKey ks"
    using assms(2) by (intro get_path_components_dotted) blast
  moreover have "add (PDict []) (dotted_path ks) v
      = add_loop (get_path_components (dotted_path ks)) v (PDict [])"
    using g assms(3) by (intro add_checked) simp_all
  moreover have "add_loop (ComponentKey ''$'' # map ComponentKey ks) v (PDict [])
      = (None, nested ks v)"
    using assms(1) nodollar v(1) by (rule add_loop_dotted)
  ultimately have keys: "add (PDict []) (dotted_path ks) v = (None, nested ks v)"
    by simp
  have "add (PDict []) ''$.a[0]'' v
      = add_loop [ComponentKey ''$'', ComponentKey ''a'', ComponentIndex 0] v (PDict [])"
    using assms(3) add_checked [OF _ grammar_a0, of "PDict []" v]
    by (simp only: components_a0 json_serializable.simps list.pred_inject)
  also have "\<dots> = (None, PDict [(''a'', PList [v])])"
    using v by simp
  finally have first: "add (PDict []) ''$.a[0]'' v = (None, PDict [(''a'', PList [v])])" .
  have "add (PDict [(''a'', PList [v])]) ''$.a[1]'' v2
      = add_loop [ComponentKey ''$'', ComponentKey ''a'', ComponentIndex 1] v2 (PDict [(''a'', PList [v])])"
    using assms(3,4) add_checked [OF _ grammar_a1, of "PDict [(''a'', PList [v])]" v2]
    by (simp add: components_a1 del: add_loop.simps)
  also have "\<dots> = (None, PDict [(''a'', PList [v, v2])])"
    using v by simp
  finally have second:
    "add (PDict [(''a'', PList [v])]) ''$.a[1]'' v2 = (None, PDict [(''a'', PList [v, v2])])" .
  from g keys first second show ?thesis
    by (simp add: lookup_keys_nested)
qed

theorem value_lands_at_path_witness:
  "add (PDict []) ''$.a.b.c'' (PInt 1)
     = (None, PDict [(''a'', PDict [(''b'', PDict [(''c'', PInt 1)])])]) \<and>
   lookup_keys (snd (add (PDict []) ''$.a.b.c'' (PInt 1))) [''a'', ''b'', ''c''] = Some (PInt 1) \<and>
   add (PDict []) ''$.a[0]'' (PInt 1) = (None, PDict [(''a'', PList [PInt 1])]) \<and>
   add (PDict [(''a'', PList [PInt 1])]) ''$.a[1]'' (PStr ''x'')
     = (None, PDict [(''a'', PList [PInt 1, PStr ''x''])])"
proof -
  have ks: "[''a'', ''b'', ''c''] \<noteq> []" by simp
  have alnum: "\<forall>k\<in>set [''a'', ''b'', ''c'']. k \<noteq> [] \<and> (\<forall>c\<in>set k. in_ranges alnum_ranges c)"
    by (simp add: in_ranges_def alnum_ranges_def)
  have path: "dotted_path [''a'', ''b'', ''c''] = ''$.a.b.c''"
    by (simp add: dotted_path_def)
  show ?thesis
    using value_lands_at_path [OF ks alnum, of "PInt 1" "PStr ''x''"]
    by (simp add: path)
qed

text \<open>
  C6: an Index component raises the index error of line 81 exactly when it is applied to
  a list whose length is below its index; and on a serializable root that is a dictionary
  whose entry \<^verbatim>\<open>"a"\<close> is a list of at most one item, \<^verbatim>\<open>add(root, "$.a[2]", v)\<close> with a
  serializable \<open>v\<close> raises that error and leaves \<^verbatim>\<open>root\<close> as it was.
\<close>

theorem index_gap_iff_beyond_length:
  "(ComponentIndex_add key node component_next val = Inl IndexGapError \<longleftrightarrow>
      (\<exists>xs. node = PList xs \<and> length xs < key)) \<and>
   (json_serializable (PDict d) \<and> json_serializable v \<and>
    map_of d ''a'' = Some (PList xs) \<and> length xs \<le> 1 \<longrightarrow>
      add (PDict d) ''$.a[2]'' v = (Some IndexGapError, PDict d))"
proof -
  have step: "ComponentIndex_add key node component_next val = Inl IndexGapError \<longleftrightarrow>
      (\<exists>xs. node = PList xs \<and> length xs < key)"
    by (cases node) (simp_all add: Let_def)
  have whole: "add (PDict d) ''$.a[2]'' v = (Some IndexGapError, PDict d)"
    if s: "json_serializable (PDict d)" "json_serializable v"
      and a: "map_of d ''a'' = Some (PList xs)" and n: "length xs \<le> 1"
  proof -
    have "add (PDict d) ''$.a[2]'' v
        = add_loop [ComponentKey ''$'', ComponentKey ''a'', ComponentIndex 2] v (PDict d)"
      using s by (simp only: add_checked grammar_a2 components_a2)
    also have "\<dots> = (Some IndexGapError, PDict d)"
      using a n by (simp add: update_triv)
    finally show ?thesis .
  qed
  from step whole show ?thesis by blast
qed

theorem index_gap_iff_beyond_length_witness:
  "(ComponentIndex_add 2 (PList [PInt 7]) None (PInt 1) = Inl IndexGapError \<longleftrightarrow>
      (\<exists>xs. PList [PInt 7] = PList xs \<and> length xs < 2)) \<and>
   json_serializable (PDict [(''a'', PList [PInt 7])]) \<and> json_serializable (PInt 1) \<and>
   map_of [(''a'', PList [PInt 7])] ''a'' = Some (PList [PInt 7]) \<and> length [PInt 7] \<le> 1 \<and>
   add (PDict [(''a'', PList [PInt 7])]) ''$.a[2]'' (PInt 1)
     = (Some IndexGapError, PDict [(''a'', PList [PInt 7])])"
  using index_gap_iff_beyond_length
    [of 2 "PList [PInt 7]" None "PInt 1" "[(''a'', PList [PInt 7])]" "PInt 1" "[PInt 7]"]
  by simp

text \<open>
  C7: on a serializable root (the root is checked before the path, line 157), \<^verbatim>\<open>add\<close>
  raises the error of line 130 if and only if the path is outside the grammar of the
  specification, whatever the value is; when it does, \<^verbatim>\<open>root\<close> is unchanged; and the
  path \<^verbatim>\<open>a.b\<close> is such a path.
\<close>

theorem invalid_path_iff_outside_grammar:
  assumes "json_serializable root"
  shows "(fst (add root json_path v) = Some InvalidPathError \<longleftrightarrow>
            \<not> fullmatch spec_grammar json_path) \<and>
         (fst (add root json_path v) = Some InvalidPathError \<longrightarrow>
            snd (add root json_path v) = root) \<and>
         add root ''a.b'' v = (Some InvalidPathError, root)"
proof -
  have bad: "add root json_path v = (Some InvalidPathError, root)"
    if "\<not> fullmatch spec_grammar json_path"
    using assms that by (rule add_invalid_path)
  have good: "fst (add root json_path v) \<noteq> Some InvalidPathError"
    if g: "fullmatch spec_grammar json_path"
  proof (cases "json_serializable v")
    case True
    have "fst (add_loop (get_path_components json_path) v root)
        \<in> {None, Some TypeMismatchError, Some IndexGapError}"
      by (rule add_loop_outcome)
    then show ?thesis
      using assms g True by (auto simp: add_checked)
  next
    case False
    then show ?thesis
      using assms g by (simp add: add_unserializable_value)
  qed
  have ab: "\<not> fullmatch spec_grammar ''a.b''" by code_simp
  have "add root ''a.b'' v = (Some InvalidPathError, root)"
    using assms ab by (rule add_invalid_path)
  moreover have "(fst (add root json_path v) = Some InvalidPathError \<longleftrightarrow>
            \<not> fullmatch spec_grammar json_path) \<and>
         (fst (add root json_path v) = Some InvalidPathError \<longrightarrow>
            snd (add root json_path v) = root)"
  proof (cases "fullmatch spec_grammar json_path")
    case True
    with good show ?thesis by simp
  next
    case False
    with bad show ?thesis by simp
  qed
  ultimately show ?thesis by simp
qed

theorem invalid_path_iff_outside_grammar_witness:
  "json_serializable (PDict [(''k'', PInt 1)]) \<and>
   \<not> fullmatch spec_grammar ''$.a..b'' \<and>
   add (PDict [(''k'', PInt 1)]) ''$.a..b'' (PInt 2) = (Some InvalidPathError, PDict [(''k'', PInt 1)]) \<and>
   add (PDict [(''k'', PInt 1)]) ''a.b'' (PInt 2) = (Some InvalidPathError, PDict [(''k'', PInt 1)])"
proof -
  have r: "json_serializable (PDict [(''k'', PInt 1)])" by simp
  have g: "\<not> fullmatch spec_grammar ''$.a..b''" by code_simp
  show ?thesis
    using invalid_path_iff_outside_grammar [OF r, of "''$.a..b''" "PInt 2"] r g
    by (simp add: prod_eq_iff)
qed

text \<open>
  The condition on the root is needed: with a root that is not serializable, the path
  \<^verbatim>\<open>a.b\<close> is outside the grammar and the call raises the error of line 114, not that of
  line 130, so the equivalence does not hold for every root.
\<close>

theorem invalid_path_unserializable_root_counterexample:
  "\<not> json_serializable (PObject 0) \<and>
   \<not> fullmatch spec_grammar ''a.b'' \<and>
   add (PObject 0) ''a.b'' PNone = (Some NotSerializableError, PObject 0) \<and>
   \<not> (fst (add (PObject 0) ''a.b'' PNone) = Some InvalidPathError \<longleftrightarrow>
        \<not> fullmatch spec_grammar ''a.b'')"
  by code_simp

text \<open>
  C8: when the root or the value is not serializable, \<^verbatim>\<open>add\<close> raises and
  leaves \<^verbatim>\<open>root\<close> unchanged. The error is that of \<^verbatim>\<open>__check_json\<close>, except when the
  root is serializable and the path is outside the grammar: the path is checked between
  the root and the value (lines 157-159), and the error is then that of \<^verbatim>\<open>__check_path\<close>.
\<close>

theorem unserializable_input_rejected:
  assumes "\<not> json_serializable root \<or> \<not> json_serializable v"
  shows "add root json_path v =
           (if json_serializable root \<and> \<not> fullmatch spec_grammar json_path
            then Some InvalidPathError else Some NotSerializableError, root)"
proof (cases "json_serializable root")
  case False
  then show ?thesis by (simp add: add_unserializable_root)
next
  case True
  with assms have v: "\<not> json_serializable v" by simp
  show ?thesis
  proof (cases "fullmatch spec_grammar json_path")
    case g: True
    with True v show ?thesis by (simp add: add_unserializable_value)
  next
    case g: False
    with True show ?thesis by (simp add: add_invalid_path)
  qed
qed

theorem unserializable_input_rejected_witness:
  "\<not> json_serializable (PDict [(''k'', PObject 0)]) \<and>
   add (PDict [(''k'', PObject 0)]) ''$.a'' (PInt 1)
     = (Some NotSerializableError, PDict [(''k'', PObject 0)]) \<and>
   json_serializable (PDict []) \<and> \<not> json_serializable (PList [PObject 0]) \<and>
   fullmatch spec_grammar ''$.a'' \<and>
   add (PDict []) ''$.a'' (PList [PObject 0]) = (Some NotSerializableError, PDict [])"
proof -
  have g: "fullmatch spec_grammar ''$.a''" by code_simp
  show ?thesis
    using unserializable_input_rejected [of "PDict [(''k'', PObject 0)]" "PInt 1" "''$.a''"]
      unserializable_input_rejected [of "PDict []" "PList [PObject 0]" "''$.a''"] g
    by simp
qed

text \<open>
  The exception is real: with a serializable root, a value that is not serializable and
  a path outside the grammar, the error raised is that of the path.
\<close>

theorem unserializable_value_invalid_path_counterexample:
  "\<not> json_serializable (PObject 0) \<and>
   add (PDict []) ''a.b'' (PObject 0) = (Some InvalidPathError, PDict [])"
  by code_simp

text \<open>
  C9: for a serializable root that is a dictionary and a serializable value,
  \<^verbatim>\<open>add(root, "$", v)\<close> returns \<^verbatim>\<open>root\<close> unchanged and writes \<open>v\<close> nowhere; for a
  serializable root that is not a dictionary it raises the type error of line 40, and
  \<^verbatim>\<open>root\<close> is unchanged as well.
\<close>

theorem root_path_is_noop_on_mapping:
  assumes "json_serializable root" and "json_serializable v"
  shows "add root ''$'' v = (if is_dict root then None else Some TypeMismatchError, root)"
proof -
  have "add root ''$'' v = add_loop [ComponentKey ''$''] v root"
    using assms by (simp only: add_checked grammar_root components_root)
  also have "\<dots> = (if is_dict root then None else Some TypeMismatchError, root)"
    by (cases root) simp_all
  finally show ?thesis .
qed

theorem root_path_is_noop_on_mapping_witness:
  "json_serializable (PDict [(''k'', PInt 1)]) \<and> json_serializable (PStr ''v'') \<and>
   add (PDict [(''k'', PInt 1)]) ''$'' (PStr ''v'') = (None, PDict [(''k'', PInt 1)])"
  using root_path_is_noop_on_mapping [of "PDict [(''k'', PInt 1)]" "PStr ''v''"]
  by simp

text \<open>On a serializable root that is a list, the call with the path \<^verbatim>\<open>$\<close> raises.\<close>

theorem root_path_on_list_counterexample:
  "json_serializable (PList []) \<and> json_serializable PNone \<and>
   add (PList []) ''$'' PNone = (Some TypeMismatchError, PList [])"
  by code_simp

text \<open>
  C10: the components of any path start with a Key component; so for a root that is not
  a dictionary, with root and value serializable and a path of the grammar, \<^verbatim>\<open>add\<close>
  raises the type error of line 40 and leaves \<^verbatim>\<open>root\<close> unchanged.
\<close>

theorem non_mapping_root_rejected:
  "(\<exists>key rest. get_path_components json_path = ComponentKey key # rest) \<and>
   (\<not> is_dict root \<and> json_serializable root \<and> json_serializable v \<and>
      fullmatch spec_grammar json_path \<longrightarrow>
    add root json_path v = (Some TypeMismatchError, root))"
proof -
  obtain key rest where k: "get_path_components json_path = ComponentKey key # rest"
    using get_path_components_Key_first by blast
  have "add root json_path v = (Some TypeMismatchError, root)"
    if "\<not> is_dict root" "json_serializable root" "json_serializable v"
       "fullmatch spec_grammar json_path"
    using that k by (simp add: add_checked Key_on_non_dict del: add_loop.simps)
  with k show ?thesis by blast
qed

theorem non_mapping_root_rejected_witness:
  "(\<exists>key rest. get_path_components ''$.a[0]'' = ComponentKey key # rest) \<and>
   \<not> is_dict (PList [PInt 1]) \<and> json_serializable (PList [PInt 1]) \<and>
   json_serializable (PStr ''v'') \<and> fullmatch spec_grammar ''$.a[0]'' \<and>
   add (PList [PInt 1]) ''$.a[0]'' (PStr ''v'') = (Some TypeMismatchError, PList [PInt 1])"
proof -
  have "fullmatch spec_grammar ''$.a[0]''" by code_simp
  then show ?thesis
    using non_mapping_root_rejected [of "''$.a[0]''" "PList [PInt 1]" "PStr ''v''"]
    by simp
qed

end
